theory Spec2Isabelle
  imports Main
begin

section \<open>Bytes\<close>

text \<open>
  A Go \<^verbatim>\<open>string\<close> and a Go \<^verbatim>\<open>[]byte\<close> are sequences of bytes; both are modelled
  as \<^typ>\<open>string\<close>, a list of 8-bit characters. The four bytes that
  \<^verbatim>\<open>SSHStdin\<close> switches on, and the separators of \<^verbatim>\<open>parseBinds\<close>, get names.
\<close>

abbreviation NL :: char where "NL \<equiv> CHR 0x0A"
abbreviation CR :: char where "CR \<equiv> CHR 0x0D"
abbreviation TILDE :: char where "TILDE \<equiv> CHR ''~''"
abbreviation DOT :: char where "DOT \<equiv> CHR ''.''"
abbreviation SLASH :: char where "SLASH \<equiv> CHR ''/''"
abbreviation EQUALS :: char where "EQUALS \<equiv> CHR ''=''"
abbreviation COLON :: char where "COLON \<equiv> CHR '':''"

section \<open>SSHStdin: the relay loop of \<^verbatim>\<open>client/fns.go\<close>\<close>

text \<open>
  The \<^verbatim>\<open>io.WriteCloser\<close> handed to \<^verbatim>\<open>SSHStdin\<close> is an interface value. Its model
  records the bytes it has accepted, and a budget: \<open>None\<close> for a writer whose
  \<^verbatim>\<open>Write\<close> never fails, \<open>Some k\<close> for one whose next \<open>k\<close> calls succeed and whose
  call after those returns an error.
\<close>

record writer =
  written :: string
  budget :: "nat option"

definition Write :: "writer \<Rightarrow> string \<Rightarrow> writer option" where
  "Write wr p =
     (case budget wr of
        None \<Rightarrow> Some (wr\<lparr>written := written wr @ p\<rparr>)
      | Some 0 \<Rightarrow> None
      | Some (Suc k) \<Rightarrow> Some (wr\<lparr>written := written wr @ p, budget := Some k\<rparr>))"

text \<open>
  The variables of the loop: the two flags \<^verbatim>\<open>newLine\<close> and \<^verbatim>\<open>tilde\<close>, the writer
  \<^verbatim>\<open>w\<close>, and whether \<^verbatim>\<open>c.session.Close()\<close> has been called.
\<close>

record relay =
  newLine :: bool
  tilde :: bool
  out :: writer
  sessionClosed :: bool

text \<open>
  One iteration of the \<^verbatim>\<open>for\<close> loop after a successful one-byte read: \<open>Next\<close> when the
  loop goes on to the next read, \<open>Return\<close> when the function returns from inside the
  \<^verbatim>\<open>switch\<close> (a failed write, or the session closed on \<^verbatim>\<open>~.\<close>).
\<close>

datatype outcome = Next relay | Return relay

definition SSHStdin_step :: "relay \<Rightarrow> char \<Rightarrow> outcome" where
  "SSHStdin_step s b =
     (if b = NL \<or> b = CR then
        (let s1 = s\<lparr>newLine := True\<rparr> in
         case Write (out s1) [b] of
           None \<Rightarrow> Return s1
         | Some w1 \<Rightarrow> Next (s1\<lparr>out := w1\<rparr>))
      else if b = TILDE then
        (if newLine s then Next (s\<lparr>newLine := False, tilde := True\<rparr>)
         else case Write (out s) [TILDE] of
                None \<Rightarrow> Return s
              | Some w1 \<Rightarrow> Next (s\<lparr>out := w1\<rparr>))
      else if b = DOT then
        (if tilde s then Return (s\<lparr>sessionClosed := True\<rparr>)
         else case Write (out s) [b] of
                None \<Rightarrow> Return s
              | Some w1 \<Rightarrow> Next (s\<lparr>out := w1\<rparr>))
      else
        (let s1 = s\<lparr>newLine := False\<rparr> in
         if tilde s1 then
           (case Write (out s1) [TILDE] of
              None \<Rightarrow> Return s1
            | Some w1 \<Rightarrow>
                (let s2 = s1\<lparr>out := w1, tilde := False\<rparr> in
                 case Write (out s2) [b] of
                   None \<Rightarrow> Return s2
                 | Some w2 \<Rightarrow> Next (s2\<lparr>out := w2\<rparr>)))
         else
           (case Write (out s1) [b] of
              None \<Rightarrow> Return s1
            | Some w1 \<Rightarrow> Next (s1\<lparr>out := w1\<rparr>))))"

text \<open>
  The reader is the list of bytes it delivers, one per \<^verbatim>\<open>Read\<close> into the one-byte
  buffer; the read after the last byte returns an error (end of stream), on which the loop
  breaks. A \<^verbatim>\<open>Read\<close> that returns neither a byte nor an error is not modelled.
\<close>

fun SSHStdin_loop :: "relay \<Rightarrow> string \<Rightarrow> relay" where
  "SSHStdin_loop s [] = s"
| "SSHStdin_loop s (b # r) =
     (case SSHStdin_step s b of
        Return s' \<Rightarrow> s'
      | Next s' \<Rightarrow> SSHStdin_loop s' r)"

text \<open>\<^verbatim>\<open>var newLine, tilde bool\<close>: both flags start at Go's zero value, false.\<close>

definition SSHStdin :: "writer \<Rightarrow> string \<Rightarrow> relay" where
  "SSHStdin wr r =
     SSHStdin_loop \<lparr>newLine = False, tilde = False, out = wr, sessionClosed = False\<rparr> r"

text \<open>A writer that has accepted nothing yet and never fails.\<close>

definition sink :: writer where
  "sink = \<lparr>written = [], budget = None\<rparr>"

text \<open>What a finished relay forwarded, and whether it closed the session.\<close>

definition forwarded :: "relay \<Rightarrow> string" where
  "forwarded s = written (out s)"

section \<open>The Go library functions that \<^verbatim>\<open>parseBinds\<close> and \<^verbatim>\<open>joinFSTab\<close> call\<close>

text \<open>
  Package \<^verbatim>\<open>strings\<close>. Both calls of the source split on a one-byte separator
  (\<^verbatim>\<open>":"\<close> and \<^verbatim>\<open>"="\<close>), so the separator is a byte here. \<^verbatim>\<open>Index\<close> returns
  \<open>None\<close> where Go returns \<open>-1\<close>.
\<close>

fun strings_Index :: "string \<Rightarrow> char \<Rightarrow> nat option" where
  "strings_Index [] sep = None"
| "strings_Index (c # s) sep =
     (if c = sep then Some 0 else map_option Suc (strings_Index s sep))"

definition strings_Count :: "string \<Rightarrow> char \<Rightarrow> nat" where
  "strings_Count s sep = length (filter (\<lambda>c. c = sep) s)"

text \<open>
  \<^verbatim>\<open>genSplit\<close>: after \<open>n\<close> has been normalised and decremented, the loop cuts the string
  at the next separator at most \<open>n\<close> times and stores the unsplit remainder last.
\<close>

fun genSplit_loop :: "string \<Rightarrow> char \<Rightarrow> nat \<Rightarrow> string list" where
  "genSplit_loop s sep 0 = [s]"
| "genSplit_loop s sep (Suc n) =
     (case strings_Index s sep of
        None \<Rightarrow> [s]
      | Some m \<Rightarrow> take m s # genSplit_loop (drop (m + 1) s) sep n)"

definition genSplit :: "string \<Rightarrow> char \<Rightarrow> int \<Rightarrow> string list" where
  "genSplit s sep n =
     (if n = 0 then []
      else
        (let n1 = (if n < 0 then int (strings_Count s sep) + 1 else n);
             n2 = (if n1 > int (length s) + 1 then int (length s) + 1 else n1)
         in genSplit_loop s sep (nat (n2 - 1))))"

definition strings_SplitN :: "string \<Rightarrow> char \<Rightarrow> int \<Rightarrow> string list" where
  "strings_SplitN s sep n = genSplit s sep n"

definition strings_Split :: "string \<Rightarrow> char \<Rightarrow> string list" where
  "strings_Split s sep = genSplit s sep (- 1)"

fun strings_Join :: "string list \<Rightarrow> string \<Rightarrow> string" where
  "strings_Join [] sep = []"
| "strings_Join [e] sep = e"
| "strings_Join (e # es) sep = e @ sep @ strings_Join es sep"

text \<open>\<^verbatim>\<open>TrimRight\<close> removes every trailing byte that occurs in the cutset.\<close>

definition strings_TrimRight :: "string \<Rightarrow> string \<Rightarrow> string" where
  "strings_TrimRight s cutset = rev (dropWhile (\<lambda>c. c \<in> set cutset) (rev s))"

text \<open>
  Package \<^verbatim>\<open>path/filepath\<close> on Unix, where the separator is \<^verbatim>\<open>/\<close> and there is no
  volume name. \<^verbatim>\<open>Clean\<close> reads the path element by element and writes into a buffer;
  \<open>ob\<close> is the part of the buffer written so far (\<^verbatim>\<open>out\<close> up to \<^verbatim>\<open>out.w\<close>) and
  \<open>dotdot\<close> the length below which a \<^verbatim>\<open>..\<close> element may not backtrack.

  Backtracking over the last element written: \<^verbatim>\<open>out.w--\<close>, then
  \<^verbatim>\<open>for out.w > dotdot && !IsPathSeparator(out.index(out.w)) { out.w-- }\<close>;
  \<open>c\<close> is the byte at index \<^verbatim>\<open>out.w\<close>, the one dropped last.
\<close>

function back_loop :: "nat \<Rightarrow> string \<Rightarrow> char \<Rightarrow> string" where
  "back_loop dotdot ob c =
     (if length ob > dotdot \<and> c \<noteq> SLASH then back_loop dotdot (butlast ob) (last ob)
      else ob)"
  by pat_completeness auto
termination
  by (relation "measure (\<lambda>(dotdot, ob, c). length ob)") auto

declare back_loop.simps [simp del]

definition backtrack :: "nat \<Rightarrow> string \<Rightarrow> string" where
  "backtrack dotdot ob = back_loop dotdot (butlast ob) (last ob)"

definition end_or_sep :: "string \<Rightarrow> bool" where
  "end_or_sep p = (case p of [] \<Rightarrow> True | x # _ \<Rightarrow> x = SLASH)"

function Clean_loop :: "bool \<Rightarrow> nat \<Rightarrow> string \<Rightarrow> string \<Rightarrow> string" where
  "Clean_loop rooted dotdot ob [] = ob"
| "Clean_loop rooted dotdot ob (c # p) =
     (if c = SLASH then Clean_loop rooted dotdot ob p
      else if c = DOT \<and> end_or_sep p then Clean_loop rooted dotdot ob p
      else if c = DOT \<and> take 1 p = [DOT] \<and> end_or_sep (drop 1 p) then
        (if length ob > dotdot then
           Clean_loop rooted dotdot (backtrack dotdot ob) (drop 1 p)
         else if \<not> rooted then
           (let ob' = (if length ob > 0 then ob @ [SLASH] else ob) @ [DOT, DOT]
            in Clean_loop rooted (length ob') ob' (drop 1 p))
         else Clean_loop rooted dotdot ob (drop 1 p))
      else
        (let ob' = (if rooted \<and> length ob \<noteq> 1 \<or> \<not> rooted \<and> length ob \<noteq> 0
                    then ob @ [SLASH] else ob)
         in Clean_loop rooted dotdot
              (ob' @ c # takeWhile (\<lambda>x. x \<noteq> SLASH) p)
              (dropWhile (\<lambda>x. x \<noteq> SLASH) p)))"
  by pat_completeness auto
termination
  by (relation "measure (\<lambda>(rooted, dotdot, ob, p). length p)")
     (auto simp: less_Suc_eq_le length_dropWhile_le)

definition Clean :: "string \<Rightarrow> string" where
  "Clean path =
     (case path of
        [] \<Rightarrow> ''.''
      | c # p \<Rightarrow>
          (let res = (if c = SLASH then Clean_loop True 1 [SLASH] p
                      else Clean_loop False 0 [] (c # p))
           in if length res = 0 then ''.'' else res))"

text \<open>
  \<^verbatim>\<open>filepath.Join\<close>: leading empty elements are ignored, the rest is joined with
  \<^verbatim>\<open>/\<close> and cleaned; with no non-empty element the result is the empty string.
\<close>

fun filepath_Join :: "string list \<Rightarrow> string" where
  "filepath_Join [] = []"
| "filepath_Join (e # elem) =
     (if e \<noteq> [] then Clean (strings_Join (e # elem) [SLASH]) else filepath_Join elem)"

section \<open>parseBinds\<close>

text \<open>
  The five errors that \<^verbatim>\<open>parseBinds\<close> builds with \<^verbatim>\<open>fmt.Errorf\<close>, each with the element
  index and (all but the first) the raw element that its message quotes.
\<close>

datatype bind_error =
    ZeroLength nat
  | EmptyElements nat string
  | TooManyElements nat string
  | LocalZeroLength nat string
  | RemoteZeroLength nat string

text \<open>The \<^verbatim>\<open>switch len(c)\<close> that assigns \<^verbatim>\<open>local\<close> and \<^verbatim>\<open>remote\<close>.\<close>

definition local_remote :: "nat \<Rightarrow> string \<Rightarrow> string list \<Rightarrow> bind_error + string \<times> string" where
  "local_remote i bind c =
     (case c of
        [] \<Rightarrow> Inl (EmptyElements i bind)
      | [c0] \<Rightarrow> Inr (c0, c0)
      | [c0, c1] \<Rightarrow> Inr (c0, c1)
      | _ \<Rightarrow> Inl (TooManyElements i bind))"

text \<open>\<^verbatim>\<open>fmt.Sprintf("%s %s none defaults,bind 0 0\n", filepath.Join(tmp, "cpu", remote), local)\<close>\<close>

definition fstab_line :: "string \<Rightarrow> string \<Rightarrow> string \<Rightarrow> string" where
  "fstab_line tmp remote local =
     filepath_Join [tmp, ''cpu'', remote] @ '' '' @ local @ '' none defaults,bind 0 0'' @ [NL]"

text \<open>
  The \<^verbatim>\<open>for i, bind := range binds\<close> loop, with the accumulated \<^verbatim>\<open>fstab\<close>. The result
  is the pair that the Go function returns: the string, and the error or \<open>None\<close> for
  \<^verbatim>\<open>nil\<close>.
\<close>

fun parseBinds_loop :: "string \<Rightarrow> string \<Rightarrow> nat \<Rightarrow> string list \<Rightarrow> string \<times> bind_error option" where
  "parseBinds_loop tmp fstab i [] = (fstab, None)"
| "parseBinds_loop tmp fstab i (bind # binds) =
     (if length bind = 0 then ([], Some (ZeroLength i))
      else
        (case local_remote i bind (strings_SplitN bind EQUALS 2) of
           Inl e \<Rightarrow> (fstab, Some e)
         | Inr (local, remote) \<Rightarrow>
             if length local = 0 then (fstab, Some (LocalZeroLength i bind))
             else if length remote = 0 then (fstab, Some (RemoteZeroLength i bind))
             else parseBinds_loop tmp (fstab @ fstab_line tmp remote local) (Suc i) binds))"

definition parseBinds :: "string \<Rightarrow> string \<Rightarrow> string \<times> bind_error option" where
  "parseBinds s tmp =
     (if length s = 0 then ([], None)
      else parseBinds_loop tmp [] 0 (strings_Split s COLON))"

section \<open>joinFSTab\<close>

text \<open>
  The loop replaces each non-empty table by its right-trimmed text and leaves an empty one
  as it is; every element of \<^verbatim>\<open>tables\<close>, empty or not, then goes to \<^verbatim>\<open>strings.Join\<close>.
\<close>

definition trim_table :: "string \<Rightarrow> string" where
  "trim_table t = (if length t = 0 then t else strings_TrimRight t [NL])"

definition joinFSTab :: "string list \<Rightarrow> string" where
  "joinFSTab tables =
     (if length tables = 0 then []
      else strings_Join (map trim_table tables) [NL] @ [NL])"

section \<open>Paths that \<^verbatim>\<open>filepath.Clean\<close> leaves alone\<close>

text \<open>
  Vocabulary for the statements below, not part of the program. An ordinary path element is
  non-empty, has no \<^verbatim>\<open>/\<close> and is neither \<^verbatim>\<open>.\<close> nor \<^verbatim>\<open>..\<close>. A relative path is in
  clean form when every element between its slashes is ordinary; a mount root is in clean
  form when it is such a path, with or without one leading \<^verbatim>\<open>/\<close> (so neither the empty
  string nor \<^verbatim>\<open>/\<close> itself).
\<close>

definition ordinary :: "string \<Rightarrow> bool" where
  "ordinary x = (x \<noteq> [] \<and> SLASH \<notin> set x \<and> x \<noteq> ''.'' \<and> x \<noteq> ''..'')"

definition clean_rel :: "string \<Rightarrow> bool" where
  "clean_rel p = list_all ordinary (strings_Split p SLASH)"

definition clean_root :: "string \<Rightarrow> bool" where
  "clean_root p =
     (case p of [] \<Rightarrow> False | c # q \<Rightarrow> if c = SLASH then clean_rel q else clean_rel p)"

text \<open>The buffer of \<^verbatim>\<open>Clean\<close> once the slash that precedes a real element is in place.\<close>

definition sepfix :: "bool \<Rightarrow> string \<Rightarrow> string" where
  "sepfix rooted ob =
     (if rooted \<and> length ob \<noteq> 1 \<or> \<not> rooted \<and> length ob \<noteq> 0 then ob @ [SLASH] else ob)"

section \<open>Facts about the split and join functions\<close>

lemma Index_None_iff: "strings_Index s sep = None \<longleftrightarrow> sep \<notin> set s"
  by (induction s) auto

lemma Index_first: "sep \<notin> set l \<Longrightarrow> strings_Index (l @ sep # r) sep = Some (length l)"
  by (induction l) auto

lemma Index_Some_split: "strings_Index s sep = Some m \<Longrightarrow> take m s @ sep # drop (m + 1) s = s"
  by (induction s arbitrary: m) (auto split: if_splits)

text \<open>With \<open>n = 2\<close> the split loop runs at most once: one cut at the first separator.\<close>

lemma SplitN_2:
  "strings_SplitN bind sep 2 =
     (case strings_Index bind sep of
        None \<Rightarrow> [bind]
      | Some m \<Rightarrow> [take m bind, drop (m + 1) bind])"
proof (cases bind)
  case Nil
  then show ?thesis by (simp add: strings_SplitN_def genSplit_def)
next
  case (Cons c s)
  then have "nat (2 - 1) = Suc 0" by simp
  with Cons show ?thesis
    by (simp add: strings_SplitN_def genSplit_def Let_def
          del: strings_Index.simps split: option.splits)
qed

lemma SplitN_2_first: "sep \<notin> set l \<Longrightarrow> strings_SplitN (l @ sep # r) sep 2 = [l, r]"
  by (simp add: SplitN_2 Index_first)

lemma length_SplitN_2:
  "length (strings_SplitN bind sep 2) = 1 \<or> length (strings_SplitN bind sep 2) = 2"
  by (simp add: SplitN_2 split: option.splits)

lemma local_remote_SplitN_2:
  "\<exists>l r. local_remote i bind (strings_SplitN bind sep 2) = Inr (l, r)"
  by (simp add: SplitN_2 local_remote_def split: option.splits)

lemma Split_no_sep: "sep \<notin> set s \<Longrightarrow> strings_Split s sep = [s]"
proof -
  assume "sep \<notin> set s"
  then have "filter (\<lambda>c. c = sep) s = []" by (induction s) auto
  then show ?thesis by (simp add: strings_Split_def genSplit_def strings_Count_def)
qed

lemma genSplit_loop_nonempty: "genSplit_loop s sep n \<noteq> []"
  by (cases n) (auto split: option.splits)

lemma Split_nonempty: "strings_Split s sep \<noteq> []"
  by (simp add: strings_Split_def genSplit_def genSplit_loop_nonempty)

lemma Join_Cons: "es \<noteq> [] \<Longrightarrow> strings_Join (e # es) sep = e @ sep @ strings_Join es sep"
  by (cases es) auto

lemma Join_append:
  "xs \<noteq> [] \<Longrightarrow> ys \<noteq> [] \<Longrightarrow>
   strings_Join (xs @ ys) sep = strings_Join xs sep @ sep @ strings_Join ys sep"
proof (induction xs)
  case Nil
  then show ?case by simp
next
  case (Cons x xs)
  then show ?case by (cases xs) (auto simp: Join_Cons)
qed

text \<open>Joining what was split gives the string back, however many cuts were made.\<close>

lemma Join_genSplit_loop: "strings_Join (genSplit_loop s sep n) [sep] = s"
proof (induction n arbitrary: s)
  case 0
  show ?case by simp
next
  case (Suc n)
  show ?case
  proof (cases "strings_Index s sep")
    case None
    then show ?thesis by simp
  next
    case (Some m)
    then show ?thesis
      using Suc.IH [of "drop (m + 1) s"] Index_Some_split [OF Some]
      by (simp add: Join_Cons genSplit_loop_nonempty)
  qed
qed

lemma Join_Split: "strings_Join (strings_Split s sep) [sep] = s"
  by (simp add: strings_Split_def genSplit_def Join_genSplit_loop)

section \<open>Facts about \<^verbatim>\<open>parseBinds\<close>\<close>

lemma parseBinds_loop_errors:
  "snd (parseBinds_loop tmp fstab i binds) \<noteq> Some (EmptyElements j b) \<and>
   snd (parseBinds_loop tmp fstab i binds) \<noteq> Some (TooManyElements j b)"
proof (induction binds arbitrary: fstab i)
  case Nil
  show ?case by simp
next
  case (Cons bind binds)
  obtain l r where lr: "local_remote i bind (strings_SplitN bind EQUALS 2) = Inr (l, r)"
    using local_remote_SplitN_2 by blast
  show ?case using Cons.IH by (simp add: lr)
qed

lemma parseBinds_single:
  assumes "COLON \<notin> set bind" and "bind \<noteq> []"
  shows "parseBinds bind tmp = parseBinds_loop tmp [] 0 [bind]"
  using assms by (simp add: parseBinds_def Split_no_sep)

section \<open>\<^verbatim>\<open>filepath.Clean\<close> on paths in clean form\<close>

lemma end_or_sep_simps [simp]: "end_or_sep []" "end_or_sep (SLASH # p)"
  by (simp_all add: end_or_sep_def)

lemma takeWhile_elem:
  "SLASH \<notin> set x \<Longrightarrow> end_or_sep rest \<Longrightarrow> takeWhile (\<lambda>c. c \<noteq> SLASH) (x @ rest) = x"
  by (induction x) (auto simp: end_or_sep_def split: list.splits)

lemma dropWhile_elem:
  "SLASH \<notin> set x \<Longrightarrow> end_or_sep rest \<Longrightarrow> dropWhile (\<lambda>c. c \<noteq> SLASH) (x @ rest) = rest"
  by (induction x) (auto simp: end_or_sep_def split: list.splits)

lemma end_or_sep_append:
  "SLASH \<notin> set x \<Longrightarrow> end_or_sep rest \<Longrightarrow> end_or_sep (x @ rest) \<longleftrightarrow> x = []"
  by (cases x) (auto simp: end_or_sep_def)

text \<open>
  One ordinary element, followed by the end of the path or by a slash, takes the last
  branch of the \<^verbatim>\<open>switch\<close>: it is copied to the buffer behind a slash where one is due.
\<close>

lemma Clean_loop_elem:
  assumes "ordinary x" and "end_or_sep rest"
  shows "Clean_loop rooted dotdot ob (x @ rest) =
         Clean_loop rooted dotdot (sepfix rooted ob @ x) rest"
proof -
  from assms(1) obtain c x' where x: "x = c # x'" and c: "c \<noteq> SLASH" and x': "SLASH \<notin> set x'"
    by (cases x) (auto simp: ordinary_def)
  have nodot: "\<not> (c = DOT \<and> end_or_sep (x' @ rest))"
    using assms x x' by (auto simp: ordinary_def end_or_sep_append)
  have nodotdot: "\<not> (c = DOT \<and> take 1 (x' @ rest) = [DOT] \<and> end_or_sep (drop 1 (x' @ rest)))"
  proof (cases x')
    case Nil
    then show ?thesis using assms(2) by (auto simp: end_or_sep_def split: list.splits)
  next
    case (Cons d x'')
    then show ?thesis using assms x x' by (auto simp: ordinary_def end_or_sep_append)
  qed
  have "Clean_loop rooted dotdot ob (c # (x' @ rest)) =
          Clean_loop rooted dotdot
            (sepfix rooted ob @ c # takeWhile (\<lambda>x. x \<noteq> SLASH) (x' @ rest))
            (dropWhile (\<lambda>x. x \<noteq> SLASH) (x' @ rest))"
    using c nodot nodotdot by (simp only: Clean_loop.simps(2) if_False sepfix_def Let_def)
  then show ?thesis
    using x' assms(2) by (simp add: x takeWhile_elem dropWhile_elem)
qed

lemma sepfix_sepfix:
  "x \<noteq> [] \<Longrightarrow> sepfix rooted (sepfix rooted ob @ x) = sepfix rooted ob @ x @ [SLASH]"
  by (cases x) (auto simp: sepfix_def)

lemma Clean_loop_elems:
  "list_all ordinary es \<Longrightarrow> es \<noteq> [] \<Longrightarrow>
   Clean_loop rooted dotdot ob (strings_Join es [SLASH]) =
     sepfix rooted ob @ strings_Join es [SLASH]"
proof (induction es arbitrary: ob)
  case Nil
  then show ?case by simp
next
  case (Cons e es)
  then have e: "ordinary e" by simp
  then have ne: "e \<noteq> []" by (simp add: ordinary_def)
  show ?case
  proof (cases es)
    case Nil
    then show ?thesis using Clean_loop_elem [OF e, of "[]" rooted dotdot ob] by simp
  next
    case (Cons e' es')
    have "Clean_loop rooted dotdot ob (e @ SLASH # strings_Join es [SLASH]) =
          Clean_loop rooted dotdot (sepfix rooted ob @ e) (SLASH # strings_Join es [SLASH])"
      using Clean_loop_elem [OF e, of "SLASH # strings_Join es [SLASH]" rooted dotdot ob]
      by simp
    also have "\<dots> = Clean_loop rooted dotdot (sepfix rooted ob @ e) (strings_Join es [SLASH])"
      by simp
    also have "\<dots> = sepfix rooted (sepfix rooted ob @ e) @ strings_Join es [SLASH]"
      using Cons.IH [of "sepfix rooted ob @ e"] Cons.prems Cons by simp
    finally show ?thesis using Cons ne by (simp add: sepfix_sepfix)
  qed
qed

lemma Join_elems_nonempty:
  "list_all ordinary es \<Longrightarrow> es \<noteq> [] \<Longrightarrow> strings_Join es [SLASH] \<noteq> []"
  by (cases es; cases "tl es") (auto simp: ordinary_def)

lemma Join_elems_hd:
  "list_all ordinary es \<Longrightarrow> es \<noteq> [] \<Longrightarrow> hd (strings_Join es [SLASH]) \<noteq> SLASH"
  by (cases es; cases "tl es"; cases "hd es") (auto simp: ordinary_def)

lemma Clean_elems_rel:
  assumes "list_all ordinary es" and "es \<noteq> []"
  shows "Clean (strings_Join es [SLASH]) = strings_Join es [SLASH]"
proof -
  obtain c p where cp: "strings_Join es [SLASH] = c # p" and c: "c \<noteq> SLASH"
    using Join_elems_nonempty [OF assms] Join_elems_hd [OF assms]
    by (cases "strings_Join es [SLASH]") auto
  have "Clean_loop False 0 [] (c # p) = c # p"
    using Clean_loop_elems [OF assms, of False 0 "[]"] by (simp only: cp sepfix_def) simp
  then show ?thesis using c by (simp add: Clean_def cp)
qed

lemma Clean_elems_abs:
  assumes "list_all ordinary es" and "es \<noteq> []"
  shows "Clean (SLASH # strings_Join es [SLASH]) = SLASH # strings_Join es [SLASH]"
  using Clean_loop_elems [OF assms, of True 1 "[SLASH]"]
  by (simp add: Clean_def sepfix_def)

lemma ordinary_cpu: "ordinary ''cpu''"
  by (simp add: ordinary_def)

lemma clean_rel_Join:
  assumes "clean_rel p" and "clean_rel q"
  shows "\<exists>es. list_all ordinary es \<and> es \<noteq> [] \<and> p @ ''/cpu/'' @ q = strings_Join es [SLASH]"
proof -
  let ?ps = "strings_Split p SLASH" and ?qs = "strings_Split q SLASH"
  have "strings_Join (?ps @ (''cpu'' # ?qs)) [SLASH] =
        strings_Join ?ps [SLASH] @ [SLASH] @ ''cpu'' @ [SLASH] @ strings_Join ?qs [SLASH]"
    by (simp add: Join_append Split_nonempty Join_Cons)
  then have "p @ ''/cpu/'' @ q = strings_Join (?ps @ (''cpu'' # ?qs)) [SLASH]"
    by (simp add: Join_Split)
  moreover have "list_all ordinary (?ps @ (''cpu'' # ?qs))"
    using assms ordinary_cpu by (simp add: clean_rel_def)
  ultimately show ?thesis by blast
qed

lemma clean_root_nonempty: "clean_root p \<Longrightarrow> p \<noteq> []"
  by (auto simp: clean_root_def)

lemma filepath_Join_clean:
  assumes "clean_root root" and "clean_rel remote"
  shows "filepath_Join [root, ''cpu'', remote] = root @ ''/cpu/'' @ remote"
proof -
  have ne: "root \<noteq> []" using assms(1) by (rule clean_root_nonempty)
  then have J: "filepath_Join [root, ''cpu'', remote] = Clean (root @ ''/cpu/'' @ remote)"
    by simp
  show ?thesis
  proof (cases "hd root = SLASH")
    case True
    with ne obtain q where root: "root = SLASH # q" by (cases root) auto
    then have "clean_rel q" using assms(1) by (simp add: clean_root_def)
    from clean_rel_Join [OF this assms(2)] obtain es where
      es: "list_all ordinary es" "es \<noteq> []" "q @ ''/cpu/'' @ remote = strings_Join es [SLASH]"
      by blast
    have E: "root @ ''/cpu/'' @ remote = SLASH # strings_Join es [SLASH]"
      using es(3) by (simp add: root)
    show ?thesis unfolding J E by (rule Clean_elems_abs [OF es(1) es(2)])
  next
    case False
    with ne have "clean_rel root" using assms(1) by (cases root) (auto simp: clean_root_def)
    from clean_rel_Join [OF this assms(2)] obtain es where
      es: "list_all ordinary es" "es \<noteq> []" "root @ ''/cpu/'' @ remote = strings_Join es [SLASH]"
      by blast
    show ?thesis unfolding J es(3) by (rule Clean_elems_rel [OF es(1) es(2)])
  qed
qed

section \<open>Unfolding the relay\<close>

lemmas relay_defs = SSHStdin_def SSHStdin_step_def Write_def sink_def forwarded_def

section \<open>The relay on input without a line terminator\<close>

text \<open>
  With both flags false and the session open, a byte that is no line terminator leaves
  the flags false and the session open; a writer that does not fail has then accepted
  exactly that byte, and the step returns early only when the write failed.
\<close>

lemma step_plain:
  assumes "\<not> newLine s" and "\<not> tilde s" and "\<not> sessionClosed s"
    and "b \<noteq> NL" and "b \<noteq> CR"
  shows "case SSHStdin_step s b of
           Next s' \<Rightarrow> \<not> newLine s' \<and> \<not> tilde s' \<and> \<not> sessionClosed s' \<and>
                      (budget (out s) = None \<longrightarrow>
                         budget (out s') = None \<and> forwarded s' = forwarded s @ [b])
         | Return s' \<Rightarrow> \<not> sessionClosed s' \<and> budget (out s) \<noteq> None"
  using assms
  by (auto simp: SSHStdin_step_def Write_def Let_def forwarded_def
        split: option.splits nat.splits)

lemma loop_plain:
  "\<not> newLine s \<Longrightarrow> \<not> tilde s \<Longrightarrow> \<not> sessionClosed s \<Longrightarrow>
   NL \<notin> set r \<Longrightarrow> CR \<notin> set r \<Longrightarrow>
   \<not> sessionClosed (SSHStdin_loop s r) \<and>
   (budget (out s) = None \<longrightarrow> forwarded (SSHStdin_loop s r) = forwarded s @ r)"
proof (induction r arbitrary: s)
  case Nil
  then show ?case by simp
next
  case (Cons b r)
  then have b: "b \<noteq> NL" "b \<noteq> CR" and r: "NL \<notin> set r" "CR \<notin> set r" by auto
  note st = step_plain [OF Cons.prems(1-3) b]
  show ?case
  proof (cases "SSHStdin_step s b")
    case (Next s')
    with st have s': "\<not> newLine s'" "\<not> tilde s'" "\<not> sessionClosed s'"
      and f: "budget (out s) = None \<longrightarrow>
                budget (out s') = None \<and> forwarded s' = forwarded s @ [b]"
      by auto
    from Cons.IH [OF s' r] f show ?thesis by (auto simp: Next)
  next
    case (Return s')
    with st show ?thesis by auto
  qed
qed

lemma SSHStdin_plain:
  "NL \<notin> set r \<Longrightarrow> CR \<notin> set r \<Longrightarrow>
   \<not> sessionClosed (SSHStdin wr r) \<and>
   (budget wr = None \<longrightarrow> forwarded (SSHStdin wr r) = written wr @ r)"
  using loop_plain [of "\<lparr>newLine = False, tilde = False, out = wr, sessionClosed = False\<rparr>" r]
  by (simp add: SSHStdin_def forwarded_def)

section \<open>C1: the state in which the relay starts\<close>

text \<open>
  C1 states that the relay starts in the state "after a line break", so that \<^verbatim>\<open>~.\<close> as the
  first two bytes closes the session and forwards nothing. The code declares both flags
  with \<^verbatim>\<open>var newLine, tilde bool\<close>, so \<^verbatim>\<open>newLine\<close> is false at the first read: on the
  input \<^verbatim>\<open>~.\<close> both bytes are forwarded and the session stays open.
\<close>

theorem tilde_dot_at_start_is_forwarded:
  "forwarded (SSHStdin sink ''~.'') = ''~.'' \<and> \<not> sessionClosed (SSHStdin sink ''~.'')"
  by (simp add: relay_defs Let_def)

text \<open>
  C1, amended. The relay starts with \<^verbatim>\<open>newLine\<close> and \<^verbatim>\<open>tilde\<close> both false, so the escape
  is recognised only after a line terminator has been read: whatever the writer does, an
  input without a line terminator never closes the session, and a writer that does not
  fail receives every byte of such an input unchanged. In particular an input whose first
  two bytes are \<^verbatim>\<open>~\<close> and \<^verbatim>\<open>.\<close> has both bytes forwarded, and the loop goes on in the
  ordinary state with the session open; the input \<^verbatim>\<open>~.\<close> alone forwards two bytes and does
  not close the session. An input that starts with a newline (or a carriage return),
  \<^verbatim>\<open>~\<close> and \<^verbatim>\<open>.\<close> forwards that first byte only and closes the session.
\<close>

theorem relay_starts_without_line_break:
  "\<not> newLine (SSHStdin wr []) \<and> \<not> tilde (SSHStdin wr []) \<and>
   (NL \<notin> set p \<and> CR \<notin> set p \<longrightarrow> \<not> sessionClosed (SSHStdin wr p)) \<and>
   (budget wr = None \<longrightarrow>
      (NL \<notin> set p \<and> CR \<notin> set p \<longrightarrow> forwarded (SSHStdin wr p) = written wr @ p) \<and>
      SSHStdin wr (TILDE # DOT # r) =
        SSHStdin_loop \<lparr>newLine = False, tilde = False,
                       out = wr\<lparr>written := written wr @ ''~.''\<rparr>,
                       sessionClosed = False\<rparr> r \<and>
      forwarded (SSHStdin wr ''~.'') = written wr @ ''~.'' \<and>
      \<not> sessionClosed (SSHStdin wr ''~.'') \<and>
      SSHStdin wr (NL # TILDE # DOT # r) =
        \<lparr>newLine = False, tilde = True, out = wr\<lparr>written := written wr @ [NL]\<rparr>,
         sessionClosed = True\<rparr> \<and>
      SSHStdin wr (CR # TILDE # DOT # r) =
        \<lparr>newLine = False, tilde = True, out = wr\<lparr>written := written wr @ [CR]\<rparr>,
         sessionClosed = True\<rparr>)"
proof -
  have flags: "\<not> newLine (SSHStdin wr []) \<and> \<not> tilde (SSHStdin wr [])"
    by (simp add: SSHStdin_def)
  have stays_open: "NL \<notin> set p \<and> CR \<notin> set p \<longrightarrow> \<not> sessionClosed (SSHStdin wr p)"
    using SSHStdin_plain [of p wr] by blast
  have unchanged: "budget wr = None \<longrightarrow>
      (NL \<notin> set p \<and> CR \<notin> set p \<longrightarrow> forwarded (SSHStdin wr p) = written wr @ p)"
    using SSHStdin_plain [of p wr] by blast
  have starts: "budget wr = None \<longrightarrow>
      SSHStdin wr (TILDE # DOT # r) =
        SSHStdin_loop \<lparr>newLine = False, tilde = False,
                       out = wr\<lparr>written := written wr @ ''~.''\<rparr>,
                       sessionClosed = False\<rparr> r \<and>
      forwarded (SSHStdin wr ''~.'') = written wr @ ''~.'' \<and>
      \<not> sessionClosed (SSHStdin wr ''~.'') \<and>
      SSHStdin wr (NL # TILDE # DOT # r) =
        \<lparr>newLine = False, tilde = True, out = wr\<lparr>written := written wr @ [NL]\<rparr>,
         sessionClosed = True\<rparr> \<and>
      SSHStdin wr (CR # TILDE # DOT # r) =
        \<lparr>newLine = False, tilde = True, out = wr\<lparr>written := written wr @ [CR]\<rparr>,
         sessionClosed = True\<rparr>"
    by (simp add: relay_defs Let_def)
  from flags stays_open unchanged starts show ?thesis by blast
qed

theorem relay_starts_without_line_break_witness:
  "budget sink = None \<and>
   NL \<notin> set ''a~.'' \<and> CR \<notin> set ''a~.'' \<and>
   \<not> sessionClosed (SSHStdin sink ''a~.'') \<and>
   forwarded (SSHStdin sink ''a~.'') = ''a~.'' \<and>
   forwarded (SSHStdin sink ''~.'') = ''~.'' \<and>
   \<not> sessionClosed (SSHStdin sink ''~.'') \<and>
   sessionClosed (SSHStdin sink [NL, TILDE, DOT]) \<and>
   forwarded (SSHStdin sink [NL, TILDE, DOT]) = [NL]"
  using relay_starts_without_line_break [of sink "''a~.''" "[]"]
  by (simp add: sink_def forwarded_def)

section \<open>C2: what \<^verbatim>\<open>parseBinds\<close> returns next to an error\<close>

text \<open>
  C2 states that a failed \<^verbatim>\<open>parseBinds\<close> returns the empty string next to its error. The
  zero-length branch does (\<^verbatim>\<open>return "", ...\<close>); the branches for an empty local and an
  empty remote half return \<^verbatim>\<open>fstab\<close>, the lines of the elements accepted so far. For the
  spec \<^verbatim>\<open>a:=x\<close> and for \<^verbatim>\<open>a:x=\<close> the line of element 0 comes back with the error of
  element 1; for \<^verbatim>\<open>a::b\<close> the string is empty.
\<close>

theorem parseBinds_error_keeps_accepted_lines:
  "parseBinds ''a:=x'' ''/tmp'' =
     (''/tmp/cpu/a a none defaults,bind 0 0'' @ [NL], Some (LocalZeroLength 1 ''=x'')) \<and>
   parseBinds ''a:x='' ''/tmp'' =
     (''/tmp/cpu/a a none defaults,bind 0 0'' @ [NL], Some (RemoteZeroLength 1 ''x='')) \<and>
   parseBinds ''a::b'' ''/tmp'' = ([], Some (ZeroLength 1))"
  by code_simp

section \<open>C3: empty tables in \<^verbatim>\<open>joinFSTab\<close>\<close>

text \<open>
  C3 states that \<^verbatim>\<open>joinFSTab\<close> skips empty tables. Its \<^verbatim>\<open>continue\<close> skips only the trimming
  of an empty table; the table stays in the slice that \<^verbatim>\<open>strings.Join\<close> receives. With no
  argument the result is empty, with one empty table it is a newline, with two it is two
  newlines, and an empty table between \<^verbatim>\<open>a\<close> and \<^verbatim>\<open>b\<close> leaves a blank line.
\<close>

theorem joinFSTab_keeps_empty_tables:
  "joinFSTab [] = [] \<and>
   joinFSTab [''''] = [NL] \<and>
   joinFSTab ['''', ''''] = [NL, NL] \<and>
   joinFSTab [''a'', '''', ''b''] = [CHR ''a'', NL, NL, CHR ''b'', NL]"
  by (simp add: joinFSTab_def trim_table_def strings_TrimRight_def)

section \<open>C4: a pending \<^verbatim>\<open>~\<close> and the byte after it\<close>

text \<open>
  C4 states that any byte other than \<^verbatim>\<open>.\<close> read while a \<^verbatim>\<open>~\<close> is pending sends the \<^verbatim>\<open>~\<close>
  out first and ends the pending state, line terminators included. Only the \<^verbatim>\<open>default\<close>
  branch of the \<^verbatim>\<open>switch\<close> writes the pending \<^verbatim>\<open>~\<close> and clears \<^verbatim>\<open>tilde\<close>. After newline and
  \<^verbatim>\<open>~\<close>, a newline is forwarded alone and \<^verbatim>\<open>tilde\<close> stays set, so a following \<^verbatim>\<open>x\<close> comes out
  behind that newline with the \<^verbatim>\<open>~\<close> before it; a second line-start \<^verbatim>\<open>~\<close> is absorbed into the
  same flag and one of the two is lost; and a \<^verbatim>\<open>~\<close> right after the pending one is written
  while \<^verbatim>\<open>tilde\<close> stays set.
\<close>

theorem pending_tilde_kept_across_line_terminator:
  "forwarded (SSHStdin sink [NL, TILDE, NL]) = [NL, NL] \<and>
   tilde (SSHStdin sink [NL, TILDE, NL]) \<and>
   forwarded (SSHStdin sink [NL, TILDE, NL, CHR ''x'']) = [NL, NL, TILDE, CHR ''x''] \<and>
   forwarded (SSHStdin sink [NL, TILDE, NL, TILDE, CHR ''x'']) = [NL, NL, TILDE, CHR ''x''] \<and>
   forwarded (SSHStdin sink [NL, TILDE, TILDE]) = [NL, TILDE] \<and>
   tilde (SSHStdin sink [NL, TILDE, TILDE])"
  by (simp add: relay_defs Let_def)

section \<open>C5: where a \<^verbatim>\<open>~\<close> is withheld\<close>

text \<open>
  C5 states that a \<^verbatim>\<open>~\<close> is withheld only right after a line terminator. The \<^verbatim>\<open>default\<close>
  branch clears \<^verbatim>\<open>newLine\<close>; the branch for \<^verbatim>\<open>.\<close> does not, so \<^verbatim>\<open>newLine\<close> survives a
  \<^verbatim>\<open>.\<close> that follows a line terminator. On newline, \<^verbatim>\<open>.\<close>, \<^verbatim>\<open>~\<close>, \<^verbatim>\<open>.\<close> the \<^verbatim>\<open>~\<close> comes after
  a \<^verbatim>\<open>.\<close> and is withheld all the same, and the last byte closes the session. The example
  of the claim, \<^verbatim>\<open>a~.b\<close>, is forwarded whole with the session open.
\<close>

theorem tilde_withheld_after_dot:
  "forwarded (SSHStdin sink [NL, DOT, TILDE, DOT]) = [NL, DOT] \<and>
   sessionClosed (SSHStdin sink [NL, DOT, TILDE, DOT]) \<and>
   forwarded (SSHStdin sink ''a~.b'') = ''a~.b'' \<and>
   \<not> sessionClosed (SSHStdin sink ''a~.b'')"
  by (simp add: relay_defs Let_def)

section \<open>C6: the line for one \<^verbatim>\<open>local=remote\<close> pair\<close>

text \<open>
  C6 states that the device path of the line is the mount root, \<^verbatim>\<open>/cpu/\<close> and the remote
  text, verbatim. The code builds it with \<^verbatim>\<open>filepath.Join(tmp, "cpu", remote)\<close>, which cleans
  the joined path. For the remote \<^verbatim>\<open>..\<close> under \<^verbatim>\<open>/tmp\<close> the device path is \<^verbatim>\<open>/tmp\<close>, not
  \<^verbatim>\<open>/tmp/cpu/..\<close>; for the absolute remote \<^verbatim>\<open>/bin\<close> it is \<^verbatim>\<open>/tmp/cpu/bin\<close>, not
  \<^verbatim>\<open>/tmp/cpu//bin\<close>.
\<close>

theorem parseBinds_device_path_is_cleaned:
  "parseBinds ''x=..'' ''/tmp'' = (''/tmp x none defaults,bind 0 0'' @ [NL], None) \<and>
   parseBinds ''x=..'' ''/tmp'' \<noteq> (''/tmp/cpu/.. x none defaults,bind 0 0'' @ [NL], None) \<and>
   parseBinds ''/bin=/bin'' ''/tmp'' = (''/tmp/cpu/bin /bin none defaults,bind 0 0'' @ [NL], None) \<and>
   parseBinds ''/bin=/bin'' ''/tmp'' \<noteq> (''/tmp/cpu//bin /bin none defaults,bind 0 0'' @ [NL], None)"
  by code_simp

text \<open>
  C6, amended. For all non-empty local and remote strings without \<^verbatim>\<open>=\<close> and \<^verbatim>\<open>:\<close>,
  \<^verbatim>\<open>parseBinds\<close> of \<^verbatim>\<open>local=remote\<close> succeeds and returns exactly one line: the path
  \<^verbatim>\<open>filepath.Join(root, "cpu", remote)\<close>, a space, the local string verbatim, and
  \<^verbatim>\<open> none defaults,bind 0 0\<close> with a newline. When the root and the remote are in clean
  form, that line is the root, \<^verbatim>\<open>/cpu/\<close>, and the remote string verbatim, as the claim has it.
\<close>

theorem parseBinds_single_pair:
  assumes "local \<noteq> []" and "remote \<noteq> []"
    and "EQUALS \<notin> set local" and "COLON \<notin> set local"
    and "EQUALS \<notin> set remote" and "COLON \<notin> set remote"
  shows "parseBinds (local @ EQUALS # remote) root =
           (filepath_Join [root, ''cpu'', remote] @ '' '' @ local @
              '' none defaults,bind 0 0'' @ [NL], None) \<and>
         (clean_root root \<and> clean_rel remote \<longrightarrow>
            parseBinds (local @ EQUALS # remote) root =
              (root @ ''/cpu/'' @ remote @ '' '' @ local @
                 '' none defaults,bind 0 0'' @ [NL], None))"
proof -
  have "parseBinds (local @ EQUALS # remote) root =
          parseBinds_loop root [] 0 [local @ EQUALS # remote]"
    using assms by (intro parseBinds_single) auto
  also have "\<dots> = (fstab_line root remote local, None)"
    using assms by (simp add: SplitN_2_first local_remote_def)
  finally have A: "parseBinds (local @ EQUALS # remote) root = (fstab_line root remote local, None)" .
  show ?thesis
    using A filepath_Join_clean [of root remote]
    by (simp add: fstab_line_def del: filepath_Join.simps)
qed

theorem parseBinds_single_pair_witness:
  "''/home/u'' \<noteq> [] \<and> ''usr/lib'' \<noteq> [] \<and>
   EQUALS \<notin> set ''/home/u'' \<and> COLON \<notin> set ''/home/u'' \<and>
   EQUALS \<notin> set ''usr/lib'' \<and> COLON \<notin> set ''usr/lib'' \<and>
   clean_root ''/tmp'' \<and> clean_rel ''usr/lib'' \<and>
   parseBinds ''/home/u=usr/lib'' ''/tmp'' =
     (''/tmp/cpu/usr/lib /home/u none defaults,bind 0 0'' @ [NL], None)"
proof -
  have c: "clean_root ''/tmp'' \<and> clean_rel ''usr/lib''"
    by code_simp
  have "clean_root ''/tmp'' \<and> clean_rel ''usr/lib'' \<longrightarrow>
          parseBinds (''/home/u'' @ EQUALS # ''usr/lib'') ''/tmp'' =
            (''/tmp'' @ ''/cpu/'' @ ''usr/lib'' @ '' '' @ ''/home/u'' @
               '' none defaults,bind 0 0'' @ [NL], None)"
    by (rule parseBinds_single_pair [THEN conjunct2]) simp_all
  with c show ?thesis by simp
qed

section \<open>C7: the split at the first \<^verbatim>\<open>=\<close>\<close>

text \<open>
  C7 states that every element with more than one \<^verbatim>\<open>=\<close> is accepted. The element
  \<^verbatim>\<open>=b=c\<close> has two, its text before the first \<^verbatim>\<open>=\<close> is empty, and the check
  \<^verbatim>\<open>len(local) == 0\<close> rejects it.
\<close>

theorem leading_equals_is_rejected:
  "strings_Count ''=b=c'' EQUALS = 2 \<and>
   parseBinds ''=b=c'' ''/tmp'' = ([], Some (LocalZeroLength 0 ''=b=c''))"
  by code_simp

text \<open>
  C7, amended. An element with more than one \<^verbatim>\<open>=\<close> is \<open>l\<close>, the first \<^verbatim>\<open>=\<close>, and
  \<open>r\<close>, where \<open>l\<close> has no \<^verbatim>\<open>=\<close> and \<open>r\<close> has one. The split yields exactly the two fields
  \<open>l\<close> and \<open>r\<close>, so local is the text before the first \<^verbatim>\<open>=\<close> and remote the whole
  remainder with its later \<^verbatim>\<open>=\<close>. Whenever \<open>l\<close> is non-empty the element is accepted: the
  loop appends its line and goes on to the next element, and as a spec of its own (no
  \<^verbatim>\<open>:\<close> in it) it compiles to that one line without error. Whenever \<open>l\<close> is empty, that
  is, the element begins with \<^verbatim>\<open>=\<close>, the element is rejected: the loop stops at it with
  the "local is 0 length" error for its index and text, and as a spec of its own it
  compiles to that error and the empty string.
\<close>

theorem split_on_first_equals:
  assumes "EQUALS \<notin> set l" and "EQUALS \<in> set r"
  shows "strings_SplitN (l @ EQUALS # r) EQUALS 2 = [l, r] \<and>
         local_remote i (l @ EQUALS # r) (strings_SplitN (l @ EQUALS # r) EQUALS 2) = Inr (l, r) \<and>
         (l \<noteq> [] \<longrightarrow>
            parseBinds_loop tmp fstab i ((l @ EQUALS # r) # binds) =
              parseBinds_loop tmp (fstab @ fstab_line tmp r l) (Suc i) binds) \<and>
         (l \<noteq> [] \<and> COLON \<notin> set l \<and> COLON \<notin> set r \<longrightarrow>
            parseBinds (l @ EQUALS # r) tmp = (fstab_line tmp r l, None)) \<and>
         (l = [] \<longrightarrow>
            snd (parseBinds_loop tmp fstab i ((l @ EQUALS # r) # binds)) =
              Some (LocalZeroLength i (l @ EQUALS # r))) \<and>
         (l = [] \<and> COLON \<notin> set r \<longrightarrow>
            parseBinds (l @ EQUALS # r) tmp = ([], Some (LocalZeroLength 0 (l @ EQUALS # r))))"
proof -
  have r: "r \<noteq> []" using assms(2) by auto
  have S: "strings_SplitN (l @ EQUALS # r) EQUALS 2 = [l, r]"
    using assms(1) by (rule SplitN_2_first)
  have L: "l \<noteq> [] \<longrightarrow>
            parseBinds_loop tmp fstab i ((l @ EQUALS # r) # binds) =
              parseBinds_loop tmp (fstab @ fstab_line tmp r l) (Suc i) binds" for tmp fstab i binds
    using r by (simp add: S local_remote_def)
  have P: "l \<noteq> [] \<and> COLON \<notin> set l \<and> COLON \<notin> set r \<longrightarrow>
            parseBinds (l @ EQUALS # r) tmp = (fstab_line tmp r l, None)"
    using L [of tmp "[]" 0 "[]"] parseBinds_single [of "l @ EQUALS # r" tmp] by auto
  have E: "l = [] \<longrightarrow>
            parseBinds_loop tmp fstab i ((l @ EQUALS # r) # binds) =
              (fstab, Some (LocalZeroLength i (l @ EQUALS # r)))" for tmp fstab i binds
    using S by (auto simp: local_remote_def)
  have Q: "l = [] \<and> COLON \<notin> set r \<longrightarrow>
            parseBinds (l @ EQUALS # r) tmp = ([], Some (LocalZeroLength 0 (l @ EQUALS # r)))"
  proof (intro impI)
    assume h: "l = [] \<and> COLON \<notin> set r"
    then have "parseBinds (l @ EQUALS # r) tmp = parseBinds_loop tmp [] 0 [l @ EQUALS # r]"
      by (intro parseBinds_single) auto
    also have "\<dots> = ([], Some (LocalZeroLength 0 (l @ EQUALS # r)))"
      using E [of tmp "[]" 0 "[]"] h by blast
    finally show "parseBinds (l @ EQUALS # r) tmp =
                    ([], Some (LocalZeroLength 0 (l @ EQUALS # r)))" .
  qed
  have E': "l = [] \<longrightarrow>
            snd (parseBinds_loop tmp fstab i ((l @ EQUALS # r) # binds)) =
              Some (LocalZeroLength i (l @ EQUALS # r))"
    using E [of tmp fstab i binds] by simp
  have LR: "local_remote i (l @ EQUALS # r) (strings_SplitN (l @ EQUALS # r) EQUALS 2) = Inr (l, r)"
    by (simp add: S local_remote_def)
  from S LR L [of tmp fstab i binds] P E' Q show ?thesis by blast
qed

theorem split_on_first_equals_witness:
  "EQUALS \<notin> set ''a'' \<and> EQUALS \<in> set ''b=c'' \<and> ''a'' \<noteq> [] \<and>
   COLON \<notin> set ''a'' \<and> COLON \<notin> set ''b=c'' \<and>
   strings_SplitN ''a=b=c'' EQUALS 2 = [''a'', ''b=c''] \<and>
   parseBinds ''a=b=c'' ''/tmp'' = (''/tmp/cpu/b=c a none defaults,bind 0 0'' @ [NL], None) \<and>
   EQUALS \<in> set ''x=y'' \<and> COLON \<notin> set ''x=y'' \<and>
   parseBinds ''=x=y'' ''/tmp'' = ([], Some (LocalZeroLength 0 ''=x=y''))"
proof -
  have f: "fstab_line ''/tmp'' ''b=c'' ''a'' = ''/tmp/cpu/b=c a none defaults,bind 0 0'' @ [NL]"
    by code_simp
  show ?thesis
    using split_on_first_equals [of "''a''" "''b=c''" 0 "''/tmp''" "[]" "[]"]
      split_on_first_equals [of "[]" "''x=y''" 0 "''/tmp''" "[]" "[]"] f
    by simp
qed

section \<open>C8: joining a joined table again\<close>

text \<open>
  C8 states that joining the result of a join changes nothing, for every list of tables.
  With no table the first join is empty and the second, handed that one empty table, is a
  newline; with \<^verbatim>\<open>a\<close> and an empty table the first join ends in two newlines and the
  second in one. The two examples of the claim hold as stated.
\<close>

theorem joinFSTab_twice_differs:
  "joinFSTab [] = [] \<and>
   joinFSTab [joinFSTab []] = [NL] \<and>
   joinFSTab [''a'', ''''] = [CHR ''a'', NL, NL] \<and>
   joinFSTab [joinFSTab [''a'', '''']] = [CHR ''a'', NL] \<and>
   joinFSTab [[CHR ''a'', NL, NL], ''b''] = [CHR ''a'', NL, CHR ''b'', NL] \<and>
   joinFSTab [joinFSTab [''a'', ''b'']] = joinFSTab [''a'', ''b'']"
  by (simp add: joinFSTab_def trim_table_def strings_TrimRight_def)

section \<open>C9: the zero-field and too-many-fields branches are dead\<close>

text \<open>
  C9. For every non-empty element, \<^verbatim>\<open>strings.SplitN(bind, "=", 2)\<close> has one or two
  fields, and for every spec string and every mount root \<^verbatim>\<open>parseBinds\<close> returns neither
  the "empty elements are not supported" error nor the "too many elements around = sign"
  error, whatever index and element text the error would carry.
\<close>

theorem split_fields_one_or_two:
  "(bind \<noteq> [] \<longrightarrow>
      length (strings_SplitN bind EQUALS 2) = 1 \<or> length (strings_SplitN bind EQUALS 2) = 2) \<and>
   snd (parseBinds s tmp) \<noteq> Some (EmptyElements i b) \<and>
   snd (parseBinds s tmp) \<noteq> Some (TooManyElements i b)"
  using length_SplitN_2 [of bind EQUALS]
    parseBinds_loop_errors [of tmp "[]" 0 "strings_Split s COLON" i b]
  by (simp add: parseBinds_def)

theorem split_fields_one_or_two_witness:
  "''a=b=c'' \<noteq> [] \<and>
   length (strings_SplitN ''a=b=c'' EQUALS 2) = 2 \<and>
   snd (parseBinds ''a=b=c:d'' ''/tmp'') \<noteq> Some (EmptyElements 0 ''a=b=c'') \<and>
   snd (parseBinds ''a=b=c:d'' ''/tmp'') \<noteq> Some (TooManyElements 0 ''a=b=c'')"
  using split_fields_one_or_two [of "''a=b=c''" "''a=b=c:d''" "''/tmp''" 0 "''a=b=c''"]
  by (simp add: SplitN_2)

section \<open>C10: a line terminator does not clear the pending escape\<close>

text \<open>
  C10. While a line-start \<^verbatim>\<open>~\<close> is pending (\<^verbatim>\<open>tilde\<close> is set), reading a line terminator
  leaves \<^verbatim>\<open>tilde\<close> set, whether the write of that byte succeeds or fails. With a writer that
  does not fail, a line terminator and then a \<^verbatim>\<open>.\<close> forward the line terminator only and
  close the session. The input newline, \<^verbatim>\<open>~\<close>, newline, \<^verbatim>\<open>.\<close> forwards the two newlines and
  closes the session.
\<close>

theorem pending_escape_survives_line_terminator:
  assumes "tilde s" and "b = NL \<or> b = CR"
  shows "(case SSHStdin_step s b of Next s' \<Rightarrow> tilde s' | Return s' \<Rightarrow> tilde s') \<and>
         (budget (out s) = None \<longrightarrow>
            sessionClosed (SSHStdin_loop s (b # DOT # r)) \<and>
            forwarded (SSHStdin_loop s (b # DOT # r)) = forwarded s @ [b]) \<and>
         forwarded (SSHStdin sink [NL, TILDE, NL, DOT]) = [NL, NL] \<and>
         sessionClosed (SSHStdin sink [NL, TILDE, NL, DOT])"
proof -
  have 1: "(case SSHStdin_step s b of Next s' \<Rightarrow> tilde s' | Return s' \<Rightarrow> tilde s')"
    using assms
    by (auto simp: SSHStdin_step_def Write_def Let_def split: option.splits nat.splits)
  have 2: "budget (out s) = None \<longrightarrow>
            sessionClosed (SSHStdin_loop s (b # DOT # r)) \<and>
            forwarded (SSHStdin_loop s (b # DOT # r)) = forwarded s @ [b]"
    using assms by (auto simp: relay_defs Let_def)
  have 3: "forwarded (SSHStdin sink [NL, TILDE, NL, DOT]) = [NL, NL]"
    by (simp add: relay_defs Let_def)
  have 4: "sessionClosed (SSHStdin sink [NL, TILDE, NL, DOT])"
    by (simp add: relay_defs Let_def)
  from 1 2 3 4 show ?thesis by blast
qed

theorem pending_escape_survives_line_terminator_witness:
  "tilde \<lparr>newLine = False, tilde = True, out = sink\<lparr>written := [NL]\<rparr>, sessionClosed = False\<rparr> \<and>
   budget (out \<lparr>newLine = False, tilde = True, out = sink\<lparr>written := [NL]\<rparr>,
                 sessionClosed = False\<rparr>) = None \<and>
   sessionClosed (SSHStdin_loop \<lparr>newLine = False, tilde = True, out = sink\<lparr>written := [NL]\<rparr>,
                                 sessionClosed = False\<rparr> [CR, DOT]) \<and>
   forwarded (SSHStdin_loop \<lparr>newLine = False, tilde = True, out = sink\<lparr>written := [NL]\<rparr>,
                             sessionClosed = False\<rparr> [CR, DOT]) = [NL, CR]"
  using pending_escape_survives_line_terminator
    [of "\<lparr>newLine = False, tilde = True, out = sink\<lparr>written := [NL]\<rparr>, sessionClosed = False\<rparr>"
        CR "[]"]
  by (simp add: sink_def forwarded_def)

end
